theory Spec2Isabelle
  imports Main "HOL-Library.Word"
begin

section \<open>The schema model of \<open>old/main.go\<close>\<close>

text \<open>
  \<open>InspectedColumn\<close>, \<open>InspectedTable\<close> and \<open>ResultSet\<close> are the three structs of
  \<open>old/main.go\<close>. A column without a foreign key has the empty string in
  \<open>PointsToTable\<close> and \<open>PointsToColumn\<close>, as in the source. The table's \<open>Name\<close>
  field is called \<open>TName\<close> here, since a record field is a constant of the theory and
  the column already owns \<open>Name\<close>.
\<close>

record InspectedColumn =
  Name :: string
  Type :: string
  PointsToTable :: string
  PointsToColumn :: string
  OrdinalPosition :: int

record InspectedTable =
  TName :: string
  Columns :: "InspectedColumn list"

record ResultSet =
  Tables :: "InspectedTable list"

text \<open>
  Every \<open>panic\<close> of the source, and every run-time panic of Go the source can reach
  (an index out of range, a failed type assertion), is a value.
  \<open>DuplicateTable\<close> is \<open>panic("Cannot add multiple tables with the same name")\<close>.
\<close>

datatype panic =
    DuplicateTable
  | QueryFailed
  | IndexOutOfRange
  | ScanFailed
  | TypeAssertionFailed
  | MarshalFailed

text \<open>\<open>contains\<close>: the linear search of the source, first match returns.\<close>

fun contains :: "string list \<Rightarrow> string \<Rightarrow> bool" where
  "contains [] e = False"
| "contains (a # s) e = (if a = e then True else contains s e)"

text \<open>\<open>ListTablesPointedTo\<close>: the targets of the columns that have one, in column order.\<close>

fun ListTablesPointedTo_loop :: "string list \<Rightarrow> InspectedColumn list \<Rightarrow> string list" where
  "ListTablesPointedTo_loop res [] = res"
| "ListTablesPointedTo_loop res (c # cs) =
     (if PointsToTable c \<noteq> [] then ListTablesPointedTo_loop (res @ [PointsToTable c]) cs
      else ListTablesPointedTo_loop res cs)"

definition ListTablesPointedTo :: "InspectedTable \<Rightarrow> string list" where
  "ListTablesPointedTo t = ListTablesPointedTo_loop [] (Columns t)"

text \<open>\<open>HasPointerToTable\<close>: the first column that points to the table, or \<open>nil\<close>.\<close>

fun HasPointerToTable_loop :: "InspectedColumn list \<Rightarrow> string \<Rightarrow> InspectedColumn option" where
  "HasPointerToTable_loop [] tableName = None"
| "HasPointerToTable_loop (col # cols) tableName =
     (if PointsToTable col = tableName then Some col else HasPointerToTable_loop cols tableName)"

definition HasPointerToTable :: "InspectedTable \<Rightarrow> string \<Rightarrow> InspectedColumn option" where
  "HasPointerToTable t tableName = HasPointerToTable_loop (Columns t) tableName"

text \<open>\<open>GetTableIndexByName\<close>: the index of the first table of that name, or \<open>-1\<close>.\<close>

fun GetTableIndexByName_loop :: "nat \<Rightarrow> InspectedTable list \<Rightarrow> string \<Rightarrow> int" where
  "GetTableIndexByName_loop idx [] name = - 1"
| "GetTableIndexByName_loop idx (t # ts) name =
     (if TName t = name then int idx else GetTableIndexByName_loop (Suc idx) ts name)"

definition GetTableIndexByName :: "ResultSet \<Rightarrow> string \<Rightarrow> int" where
  "GetTableIndexByName rs name = GetTableIndexByName_loop 0 (Tables rs) name"

text \<open>
  \<open>AddTable\<close> mutates its receiver, and panics before the append when a table of that
  name is registered. The model returns the receiver as the call leaves it, together
  with the panic if there was one.
\<close>

fun AddTable_dup :: "InspectedTable list \<Rightarrow> InspectedTable \<Rightarrow> bool" where
  "AddTable_dup [] table = False"
| "AddTable_dup (t # ts) table = (if TName t = TName table then True else AddTable_dup ts table)"

definition AddTable :: "ResultSet \<Rightarrow> InspectedTable \<Rightarrow> ResultSet \<times> panic option" where
  "AddTable rs table =
     (if AddTable_dup (Tables rs) table then (rs, Some DuplicateTable)
      else (rs\<lparr>Tables := Tables rs @ [table]\<rparr>, None))"

text \<open>
  \<open>DetermineInsertTableOrder\<close>. The inner loop asks whether every \<open>dep\<close> of
  \<open>pointsTo\<close> is contained in \<open>pointsTo\<close> (the source's line 111), and breaks at the
  first that is not.
\<close>

fun allDepsAvailable :: "string list \<Rightarrow> string list \<Rightarrow> bool" where
  "allDepsAvailable pointsTo [] = True"
| "allDepsAvailable pointsTo (dep # deps) =
     (if \<not> contains pointsTo dep then False else allDepsAvailable pointsTo deps)"

fun DetermineInsertTableOrder_loop :: "string list \<Rightarrow> InspectedTable list \<Rightarrow> string list" where
  "DetermineInsertTableOrder_loop res [] = res"
| "DetermineInsertTableOrder_loop res (t # ts) =
     (let pointsTo = ListTablesPointedTo t in
      if length pointsTo = 0 \<and> \<not> contains res (TName t)
      then DetermineInsertTableOrder_loop (res @ [TName t]) ts
      else if allDepsAvailable pointsTo pointsTo
      then DetermineInsertTableOrder_loop (res @ [TName t]) ts
      else DetermineInsertTableOrder_loop res ts)"

definition DetermineInsertTableOrder :: "ResultSet \<Rightarrow> string list" where
  "DetermineInsertTableOrder rs = DetermineInsertTableOrder_loop [] (Tables rs)"

section \<open>Values of the driver and the results of a call\<close>

text \<open>
  A call of the source returns, panics, or (in this model) runs out of fuel: the fuel
  of \<open>traverseTables\<close> bounds the depth of its recursion, so a traversal that
  recurses without end is one that is \<open>OutOfFuel\<close> at every fuel.
\<close>

datatype 'a res = Ok 'a | Panic panic | OutOfFuel

definition res_bind :: "'a res \<Rightarrow> ('a \<Rightarrow> 'b res) \<Rightarrow> 'b res" where
  "res_bind m f = (case m of Ok x \<Rightarrow> f x | Panic p \<Rightarrow> Panic p | OutOfFuel \<Rightarrow> OutOfFuel)"

text \<open>
  \<open>Time\<close> holds the civil fields of a \<open>time.Time\<close> in its own location, which are
  what \<open>Format\<close> prints. \<open>array16\<close> is Go's \<open>[16]uint8\<close>; \<open>iface\<close> is a
  value held in an \<open>interface{}\<close>: \<open>nil\<close>, or one of the dynamic types the
  source asserts, or any other value (\<open>GoOther\<close>, told apart by a tag).
\<close>

record Time =
  Year :: int
  Month :: nat
  Day :: nat
  Hour :: nat
  Minute :: nat
  Second :: nat
  Nanosecond :: nat

datatype array16 =
  Array16 "8 word" "8 word" "8 word" "8 word" "8 word" "8 word" "8 word" "8 word"
          "8 word" "8 word" "8 word" "8 word" "8 word" "8 word" "8 word" "8 word"

fun array16_list :: "array16 \<Rightarrow> 8 word list" where
  "array16_list (Array16 b0 b1 b2 b3 b4 b5 b6 b7 b8 b9 b10 b11 b12 b13 b14 b15) =
     [b0, b1, b2, b3, b4, b5, b6, b7, b8, b9, b10, b11, b12, b13, b14, b15]"

datatype iface =
    GoNil
  | GoString string
  | GoBytes "8 word list"
  | GoArray16 array16
  | GoTime Time
  | GoInt int
  | GoOther nat

text \<open>
  What \<open>conn.Query\<close> followed by \<open>rows.Next\<close>, \<open>rows.Scan\<close> and \<open>rows.Values\<close>
  gives for one SQL text: an error of \<open>Query\<close>, no row, a row that the driver cannot
  scan, or a row as its fields in order, each the field's name and its value. The
  driver stores the same value into an \<open>*interface{}\<close> destination of \<open>Scan\<close> as
  \<open>Values\<close> returns, so one list stands for both.

  \<open>env\<close> is everything outside the repository that the traversal calls: the
  database behind the connection (a fixed database state is a function of the SQL
  text), \<open>fmt.Sprintf\<close> with the verbs \<open>%v\<close> and \<open>%+v\<close>, and \<open>json.Marshal\<close>.
\<close>

datatype query_result = QueryError | NoRow | RowScanError | Row "(string \<times> iface) list"

record env =
  Query :: "string \<Rightarrow> query_result"
  Sprint_v :: "iface \<Rightarrow> string"
  Sprint_plus_v :: "iface \<Rightarrow> string"
  Marshal :: "iface \<Rightarrow> string option"

section \<open>Literals: UUIDs and timestamps\<close>

text \<open>
  \<open>uuid_String\<close> is the \<open>String\<close> method of both UUID libraries the source uses:
  lower-case hexadecimal, the bytes grouped 4-2-2-2-6 and joined by hyphens. A byte
  prints as its high and its low four bits (\<open>v >> 4\<close> and \<open>v & 0x0f\<close>, here as
  quotient and remainder by 16).
\<close>

definition hextable :: string where
  "hextable = ''0123456789abcdef''"

definition hex_byte :: "8 word \<Rightarrow> string" where
  "hex_byte v = [hextable ! (unat v div 16), hextable ! (unat v mod 16)]"

definition hex_Encode :: "8 word list \<Rightarrow> string" where
  "hex_Encode src = concat (map hex_byte src)"

definition uuid_String :: "8 word list \<Rightarrow> string" where
  "uuid_String u =
     hex_Encode (take 4 u) @ ''-'' @ hex_Encode (take 2 (drop 4 u)) @ ''-'' @
     hex_Encode (take 2 (drop 6 u)) @ ''-'' @ hex_Encode (take 2 (drop 8 u)) @ ''-'' @
     hex_Encode (drop 10 u)"

text \<open>
  \<open>time.Format\<close>. \<open>appendInt\<close> writes a decimal, zero-padded to a width, with a
  minus sign first for a negative number. The layout of the source,
  \<open>2006-01-02T15:04:05.000Z\<close>, reads as the chunks of \<open>layout_ms_Z\<close>: a \<open>Z\<close> that
  no \<open>07\<close> follows is not a zone chunk of Go's layouts and is copied as it stands.
\<close>

definition digit :: "nat \<Rightarrow> char" where
  "digit d = ''0123456789'' ! d"

fun digits :: "nat \<Rightarrow> string" where
  "digits n = (if n < 10 then [digit n] else digits (n div 10) @ [digit (n mod 10)])"

definition appendInt :: "int \<Rightarrow> nat \<Rightarrow> string" where
  "appendInt x width =
     (if x < 0 then ''-'' else []) @
     replicate (width - length (digits (nat \<bar>x\<bar>))) (CHR ''0'') @ digits (nat \<bar>x\<bar>)"

datatype chunk =
    stdLongYear
  | stdZeroMonth
  | stdZeroDay
  | stdHour
  | stdZeroMinute
  | stdZeroSecond
  | stdFracSecond0 nat
  | Literal string

fun appendChunk :: "Time \<Rightarrow> chunk \<Rightarrow> string" where
  "appendChunk t stdLongYear = appendInt (Year t) 4"
| "appendChunk t stdZeroMonth = appendInt (int (Month t)) 2"
| "appendChunk t stdZeroDay = appendInt (int (Day t)) 2"
| "appendChunk t stdHour = appendInt (int (Hour t)) 2"
| "appendChunk t stdZeroMinute = appendInt (int (Minute t)) 2"
| "appendChunk t stdZeroSecond = appendInt (int (Second t)) 2"
| "appendChunk t (stdFracSecond0 n) = ''.'' @ take n (appendInt (int (Nanosecond t)) 9)"
| "appendChunk t (Literal s) = s"

definition Format :: "Time \<Rightarrow> chunk list \<Rightarrow> string" where
  "Format t layout = concat (map (appendChunk t) layout)"

definition layout_ms_Z :: "chunk list" where
  "layout_ms_Z =
     [stdLongYear, Literal ''-'', stdZeroMonth, Literal ''-'', stdZeroDay, Literal ''T'',
      stdHour, Literal '':'', stdZeroMinute, Literal '':'', stdZeroSecond,
      stdFracSecond0 3, Literal ''Z'']"

definition quoted :: "string \<Rightarrow> string" where
  "quoted s = [CHR 0x27] @ s @ [CHR 0x27]"

text \<open>
  The literal of one scanned value (lines 431 to 467 of the source): \<open>nil\<close> first, then
  the switch on the column's declared type.
\<close>

definition rowLiteral :: "env \<Rightarrow> string \<Rightarrow> iface \<Rightarrow> string res" where
  "rowLiteral E typ e =
     (if e = GoNil then Ok ''NULL''
      else if typ = ''uuid'' then
        (case e of GoArray16 j \<Rightarrow> Ok (quoted (uuid_String (array16_list j)))
         | _ \<Rightarrow> Panic TypeAssertionFailed)
      else if typ = ''timestamp'' \<or> typ = ''timestamp with time zone''
              \<or> typ = ''timestamp without time zone'' then
        (case e of GoTime j \<Rightarrow> Ok (quoted (Format j layout_ms_Z))
         | _ \<Rightarrow> Panic TypeAssertionFailed)
      else if typ = ''json'' \<or> typ = ''jsonb'' then
        (case Marshal E e of None \<Rightarrow> Panic MarshalFailed | Some b \<Rightarrow> Ok (quoted b))
      else Ok (quoted (Sprint_plus_v E e)))"

fun rowStringVals :: "env \<Rightarrow> InspectedColumn list \<Rightarrow> iface list \<Rightarrow> string list res" where
  "rowStringVals E (c # cs) (e # es) =
     res_bind (rowLiteral E (Type c) e) (\<lambda>a.
       res_bind (rowStringVals E cs es) (\<lambda>as. Ok (a # as)))"
| "rowStringVals E cs es = Ok []"

text \<open>\<open>strings.Join\<close>.\<close>

fun Join :: "string list \<Rightarrow> string \<Rightarrow> string" where
  "Join [] sep = []"
| "Join [a] sep = a"
| "Join (a # as) sep = a @ sep @ Join as sep"

text \<open>
  \<open>AsStringFromValue\<close>. For a uuid the bytes are copied into a slice of 16 zero
  bytes: a byte slice longer than 16 runs out of range, a shorter one is padded.
\<close>

definition nil_marker :: string where
  "nil_marker = ''<<<<<<<<<<<nil>>>>>>>>>>''"

definition AsStringFromValue :: "env \<Rightarrow> string \<Rightarrow> iface \<Rightarrow> string res" where
  "AsStringFromValue E pgTypeName v =
     (if v = GoNil then Ok nil_marker
      else if pgTypeName = ''text'' \<or> pgTypeName = ''character varying'' \<or> pgTypeName = ''json'' then
        (case v of GoString str \<Rightarrow> Ok str
         | GoBytes d \<Rightarrow> Ok (map (\<lambda>b. char_of (unat b)) d)
         | _ \<Rightarrow> Panic TypeAssertionFailed)
      else if pgTypeName = ''uuid'' then
        (case v of GoArray16 a \<Rightarrow> Ok (uuid_String (array16_list a))
         | GoBytes d \<Rightarrow>
             (if length d > 16 then Panic IndexOutOfRange
              else Ok (uuid_String (d @ replicate (16 - length d) 0)))
         | _ \<Rightarrow> Panic TypeAssertionFailed)
      else if pgTypeName = ''timestamp with time zone'' \<or> pgTypeName = ''timestamp without time zone''
      then Ok ''<timestamp>''
      else if pgTypeName = ''integer'' then Ok (Sprint_v E v)
      else Ok [])"

section \<open>The traversal\<close>

text \<open>
  The two package variables of the source, \<open>fullContents\<close> and \<open>visited\<close>, are the
  state every call reads and writes. \<open>queries\<close> records the SQL texts sent to the
  database, in order: the effect of \<open>conn.Query\<close>.
\<close>

record tableContents =
  TableName :: string
  InsertColumnNames :: "string list"
  ValuesRows :: "string list"

record session =
  fullContents :: "tableContents list"
  visited :: "string list"
  queries :: "string list"

definition initial_session :: session where
  "initial_session = \<lparr>fullContents = [], visited = [], queries = []\<rparr>"

fun getOrCreate_loop :: "nat \<Rightarrow> tableContents list \<Rightarrow> string \<Rightarrow> nat option" where
  "getOrCreate_loop idx [] tableName = None"
| "getOrCreate_loop idx (c # cs) tableName =
     (if TableName c = tableName then Some idx else getOrCreate_loop (Suc idx) cs tableName)"

definition getOrCreateTableContents :: "tableContents list \<Rightarrow> string \<Rightarrow> nat \<times> tableContents list" where
  "getOrCreateTableContents fc tableName =
     (case getOrCreate_loop 0 fc tableName of
        Some idx \<Rightarrow> (idx, fc)
      | None \<Rightarrow> (length fc,
          fc @ [\<lparr>TableName = tableName, InsertColumnNames = [], ValuesRows = []\<rparr>]))"

definition query_text :: "string \<Rightarrow> string \<Rightarrow> string \<Rightarrow> string" where
  "query_text fromTable identifyingColumnName identifier =
     ''SELECT * FROM '' @ fromTable @ '' WHERE '' @ identifyingColumnName @ '' = '' @
     quoted identifier @ '' ORDER BY id DESC LIMIT 1''"

definition Tables_at :: "ResultSet \<Rightarrow> int \<Rightarrow> InspectedTable res" where
  "Tables_at rs i =
     (if 0 \<le> i \<and> i < int (length (Tables rs)) then Ok (Tables rs ! nat i)
      else Panic IndexOutOfRange)"

text \<open>
  \<open>resultData\<close>: the map from field name to value; a key that is absent reads as
  \<open>nil\<close>, as a Go map of \<open>interface{}\<close> does.
\<close>

definition resultData_of :: "(string \<times> iface) list \<Rightarrow> string \<Rightarrow> iface" where
  "resultData_of flds = foldl (\<lambda>m (k, v). m(k := v)) (\<lambda>_. GoNil) flds"

text \<open>
  Lines 374 to 420: the scanned values \<open>ifVals\<close> and \<open>resultData\<close>. With no row
  both stay as they were made: every scanned value \<open>nil\<close>, the map empty. With a row,
  more raw values than columns index \<open>tabl.Columns\<close> out of range, and fewer fields
  than destinations make \<open>Scan\<close> fail.
\<close>

definition scan_row ::
  "InspectedColumn list \<Rightarrow> query_result \<Rightarrow> (iface list \<times> (string \<Rightarrow> iface)) res" where
  "scan_row cols r =
     (case r of
        QueryError \<Rightarrow> Panic QueryFailed
      | NoRow \<Rightarrow> Ok (replicate (length cols) GoNil, \<lambda>_. GoNil)
      | RowScanError \<Rightarrow> Panic ScanFailed
      | Row flds \<Rightarrow>
          (if length flds > length cols then Panic IndexOutOfRange
           else if length flds < length cols then Panic ScanFailed
           else Ok (map snd flds, resultData_of flds)))"

text \<open>
  Lines 367 to 470: the query, the table of the schema, the scan, and the row appended
  to the contents of the table, whether a row was found or not.
\<close>

definition fetch_and_record ::
  "env \<Rightarrow> ResultSet \<Rightarrow> string \<Rightarrow> string \<Rightarrow> string \<Rightarrow> session \<Rightarrow>
   (InspectedTable \<times> (string \<Rightarrow> iface) \<times> session) res" where
  "fetch_and_record E resSet fromTable identifyingColumnName identifier s =
     (let sql = query_text fromTable identifyingColumnName identifier;
          r = Query E sql
      in if r = QueryError then Panic QueryFailed
         else
           res_bind (Tables_at resSet (GetTableIndexByName resSet fromTable)) (\<lambda>tabl.
           res_bind (scan_row (Columns tabl) r) (\<lambda>(ifVals, resultData).
             let (colIdx, fc1) = getOrCreateTableContents (fullContents s) fromTable;
                 fc2 = fc1[colIdx := (fc1 ! colIdx)\<lparr>InsertColumnNames := map Name (Columns tabl)\<rparr>]
             in res_bind (rowStringVals E (Columns tabl) ifVals) (\<lambda>rowStringVals.
                  let rowVal = Join rowStringVals '', '';
                      fc3 = fc2[colIdx := (fc2 ! colIdx)\<lparr>ValuesRows := ValuesRows (fc2 ! colIdx) @ [rowVal]\<rparr>]
                  in Ok (tabl, resultData,
                         s\<lparr>fullContents := fc3, queries := queries s @ [sql]\<rparr>)))))"

text \<open>
  Lines 472 to 478, one table of the loop: a table with a column that points to
  \<open>fromTable\<close> is entered, whatever the identifier is.
\<close>

definition forward_step ::
  "(string \<Rightarrow> string \<Rightarrow> string \<Rightarrow> session \<Rightarrow> session res) \<Rightarrow> env \<Rightarrow> string \<Rightarrow>
   (string \<Rightarrow> iface) \<Rightarrow> InspectedTable \<Rightarrow> session \<Rightarrow> session res" where
  "forward_step recurse E fromTable resultData t s =
     (case HasPointerToTable t fromTable of
        None \<Rightarrow> Ok s
      | Some col \<Rightarrow>
          res_bind (AsStringFromValue E (Type col) (resultData (PointsToColumn col))) (\<lambda>ident.
            recurse (TName t) (Name col) ident s))"

fun forward_loop ::
  "(string \<Rightarrow> string \<Rightarrow> string \<Rightarrow> session \<Rightarrow> session res) \<Rightarrow> env \<Rightarrow> string \<Rightarrow>
   (string \<Rightarrow> iface) \<Rightarrow> InspectedTable list \<Rightarrow> session \<Rightarrow> session res" where
  "forward_loop recurse E fromTable resultData [] s = Ok s"
| "forward_loop recurse E fromTable resultData (t # ts) s =
     res_bind (forward_step recurse E fromTable resultData t s)
       (forward_loop recurse E fromTable resultData ts)"

text \<open>
  Lines 479 to 494, one column of the loop: a foreign-key column is followed when its
  value is not \<open>nil\<close> and its identifier is not in \<open>visited\<close>.
\<close>

definition backward_step ::
  "(string \<Rightarrow> string \<Rightarrow> string \<Rightarrow> session \<Rightarrow> session res) \<Rightarrow> env \<Rightarrow>
   (string \<Rightarrow> iface) \<Rightarrow> InspectedColumn \<Rightarrow> session \<Rightarrow> session res" where
  "backward_step recurse E resultData col s =
     (if PointsToTable col \<noteq> [] \<and> PointsToColumn col \<noteq> [] then
        (let data = resultData (Name col) in
         if data = GoNil then Ok s
         else
           res_bind (AsStringFromValue E (Type col) data) (\<lambda>ident.
             if contains (visited s) ident then Ok s
             else recurse (PointsToTable col) (PointsToColumn col) ident
                    (s\<lparr>visited := visited s @ [ident]\<rparr>)))
      else Ok s)"

fun backward_loop ::
  "(string \<Rightarrow> string \<Rightarrow> string \<Rightarrow> session \<Rightarrow> session res) \<Rightarrow> env \<Rightarrow>
   (string \<Rightarrow> iface) \<Rightarrow> InspectedColumn list \<Rightarrow> session \<Rightarrow> session res" where
  "backward_loop recurse E resultData [] s = Ok s"
| "backward_loop recurse E resultData (col # cols) s =
     res_bind (backward_step recurse E resultData col s)
       (backward_loop recurse E resultData cols)"

text \<open>\<open>traverseTables\<close>; the fuel is the depth of recursion left.\<close>

primrec traverseTables ::
  "nat \<Rightarrow> env \<Rightarrow> ResultSet \<Rightarrow> string \<Rightarrow> string \<Rightarrow> string \<Rightarrow> session \<Rightarrow> session res" where
  "traverseTables 0 E resSet fromTable identifyingColumnName identifier s = OutOfFuel"
| "traverseTables (Suc n) E resSet fromTable identifyingColumnName identifier s =
     res_bind (fetch_and_record E resSet fromTable identifyingColumnName identifier s)
       (\<lambda>(tabl, resultData, s1).
          res_bind (forward_loop (traverseTables n E resSet) E fromTable resultData (Tables resSet) s1)
            (backward_loop (traverseTables n E resSet) E resultData (Columns tabl)))"

section \<open>The statements \<open>main\<close> prints\<close>

text \<open>
  Lines 310 to 335: for each table name of the ordering, one statement for each entry of
  \<open>fullContents\<close> of that name.
\<close>

fun valueRows :: "string list \<Rightarrow> string" where
  "valueRows [] = []"
| "valueRows [r] = ''('' @ r @ '')''"
| "valueRows (r # rs) = ''('' @ r @ '')'' @ '','' @ [CHR 0x0A] @ valueRows rs"

definition quotedColumnNames :: "string list \<Rightarrow> string list" where
  "quotedColumnNames cols = map (\<lambda>colName. [CHR 0x22] @ colName @ [CHR 0x22]) cols"

definition stmt_of :: "tableContents \<Rightarrow> string" where
  "stmt_of tblInfo =
     ''INSERT'' @ [CHR 0x0A] @ ''INTO '' @ [CHR 0x22] @ ''public'' @ [CHR 0x22] @ ''.'' @
     [CHR 0x22] @ TableName tblInfo @ [CHR 0x22] @
     ''('' @ Join (quotedColumnNames (InsertColumnNames tblInfo)) '','' @ '')'' @ [CHR 0x0A] @
     ''VALUES'' @ [CHR 0x0A] @ valueRows (ValuesRows tblInfo) @ [CHR 0x0A] @ '';''"

definition emitted :: "string list \<Rightarrow> tableContents list \<Rightarrow> tableContents list" where
  "emitted tableOrdering fc =
     concat (map (\<lambda>tableName. filter (\<lambda>tblInfo. TableName tblInfo = tableName) fc) tableOrdering)"

definition statements :: "string list \<Rightarrow> tableContents list \<Rightarrow> string list" where
  "statements tableOrdering fc = map stmt_of (emitted tableOrdering fc)"




text \<open>
  One run of the program from a schema and a seed: the traversal from the empty
  package variables, then the statements in the order of \<open>DetermineInsertTableOrder\<close>.
\<close>

definition extraction ::
  "nat \<Rightarrow> env \<Rightarrow> ResultSet \<Rightarrow> string \<Rightarrow> string \<Rightarrow> string \<Rightarrow> string list res" where
  "extraction n E resSet startAtTable identifyingColumnName identifier =
     res_bind (traverseTables n E resSet startAtTable identifyingColumnName identifier initial_session)
       (\<lambda>s. Ok (statements (DetermineInsertTableOrder resSet) (fullContents s)))"

section \<open>What the specification asks of literals\<close>

text \<open>
  The timestamp of the specification, \<open>YYYY-MM-DDTHH:MM:SS.mmm\<close>: every field
  zero-padded to its width, the milliseconds cut from the nanoseconds, and nothing
  after them. A canonical UUID string has 36 characters: hyphens at 8, 13, 18 and 23,
  lower-case hexadecimal digits elsewhere.
\<close>

definition zero_pad :: "nat \<Rightarrow> nat \<Rightarrow> string" where
  "zero_pad w n = replicate (w - length (digits n)) (CHR ''0'') @ digits n"

definition spec_timestamp :: "Time \<Rightarrow> string" where
  "spec_timestamp t =
     zero_pad 4 (nat (Year t)) @ ''-'' @ zero_pad 2 (Month t) @ ''-'' @ zero_pad 2 (Day t) @ ''T'' @
     zero_pad 2 (Hour t) @ '':'' @ zero_pad 2 (Minute t) @ '':'' @ zero_pad 2 (Second t) @ ''.'' @
     zero_pad 3 (Nanosecond t div 1000000)"

definition civil :: "Time \<Rightarrow> bool" where
  "civil t \<longleftrightarrow>
     0 \<le> Year t \<and> Year t \<le> 9999 \<and> 1 \<le> Month t \<and> Month t \<le> 12 \<and> 1 \<le> Day t \<and> Day t \<le> 31 \<and>
     Hour t < 24 \<and> Minute t < 60 \<and> Second t < 60 \<and> Nanosecond t < 1000000000"



section \<open>Schemas and databases to run the code on\<close>

text \<open>
  A database is given by the rows it returns for the SQL texts listed, and no row for
  any other text. \<open>fixture_Sprint\<close> prints a string as itself and an integer in
  decimal, as \<open>%v\<close> and \<open>%+v\<close> do; it is not used on other values.
\<close>

definition fixture_Sprint :: "iface \<Rightarrow> string" where
  "fixture_Sprint v = (case v of GoString s \<Rightarrow> s | GoInt i \<Rightarrow> appendInt i 0 | _ \<Rightarrow> [])"

definition fixture_db :: "(string \<times> (string \<times> iface) list) list \<Rightarrow> string \<Rightarrow> query_result" where
  "fixture_db rows sql = (case map_of rows sql of None \<Rightarrow> NoRow | Some flds \<Rightarrow> Row flds)"

definition fixture_env :: "(string \<times> (string \<times> iface) list) list \<Rightarrow> env" where
  "fixture_env rows =
     \<lparr>Query = fixture_db rows, Sprint_v = fixture_Sprint, Sprint_plus_v = fixture_Sprint,
      Marshal = (\<lambda>_. None)\<rparr>"

definition text_column :: "string \<Rightarrow> int \<Rightarrow> InspectedColumn" where
  "text_column n pos =
     \<lparr>Name = n, Type = ''text'', PointsToTable = [], PointsToColumn = [], OrdinalPosition = pos\<rparr>"

definition text_reference :: "string \<Rightarrow> int \<Rightarrow> string \<Rightarrow> string \<Rightarrow> InspectedColumn" where
  "text_reference n pos tt tc =
     \<lparr>Name = n, Type = ''text'', PointsToTable = tt, PointsToColumn = tc, OrdinalPosition = pos\<rparr>"

text \<open>
  The scenario of the specification: \<open>vehicle\<close> refers to \<open>manufacturer\<close> and to
  \<open>model\<close>. The tables are registered in the order the inspector met them, here
  \<open>vehicle\<close> first. The database holds one vehicle, its manufacturer and its model.
\<close>

definition vehicle_schema :: ResultSet where
  "vehicle_schema = \<lparr>Tables =
     [\<lparr>TName = ''vehicle'',
       Columns = [text_column ''id'' 1, text_reference ''make'' 2 ''manufacturer'' ''id'',
                  text_reference ''model'' 3 ''model'' ''id'']\<rparr>,
      \<lparr>TName = ''manufacturer'', Columns = [text_column ''id'' 1]\<rparr>,
      \<lparr>TName = ''model'', Columns = [text_column ''id'' 1]\<rparr>]\<rparr>"

definition vehicle_row :: "(string \<times> iface) list" where
  "vehicle_row = [(''id'', GoString ''V1''), (''make'', GoString ''M1''), (''model'', GoString ''D1'')]"

definition vehicle_env :: env where
  "vehicle_env = fixture_env
     [(query_text ''vehicle'' ''id'' ''V1'', vehicle_row),
      (query_text ''vehicle'' ''make'' ''M1'', vehicle_row),
      (query_text ''vehicle'' ''model'' ''D1'', vehicle_row),
      (query_text ''manufacturer'' ''id'' ''M1'', [(''id'', GoString ''M1'')]),
      (query_text ''model'' ''id'' ''D1'', [(''id'', GoString ''D1'')])]"




text \<open>
  A parent-pointer hierarchy: \<open>node.parent\<close> refers to \<open>node.id\<close> and may be null.
  The database holds the root alone.
\<close>

definition node_table :: InspectedTable where
  "node_table = \<lparr>TName = ''node'',
     Columns = [text_column ''id'' 1, text_reference ''parent'' 2 ''node'' ''id'']\<rparr>"

definition node_schema :: ResultSet where
  "node_schema = \<lparr>Tables = [node_table]\<rparr>"

definition node_row :: "(string \<times> iface) list" where
  "node_row = [(''id'', GoString ''1''), (''parent'', GoNil)]"

definition node_env :: env where
  "node_env = fixture_env [(query_text ''node'' ''id'' ''1'', node_row)]"

definition person_table :: InspectedTable where
  "person_table = \<lparr>TName = ''person'', Columns = [text_column ''id'' 1, text_column ''name'' 2]\<rparr>"

text \<open>The seed of \<open>main\<close> as the 16 bytes of its UUID, and a time of day.\<close>

definition seed_uuid :: array16 where
  "seed_uuid = Array16 0xce 0x44 0xb2 0x34 0x14 0xd9 0x4a 0x5f 0x80 0xc6 0x18 0x09 0xaa 0xb0 0x98 0x71"

definition noon :: Time where
  "noon = \<lparr>Year = 2024, Month = 1, Day = 2, Hour = 12, Minute = 4, Second = 5,
           Nanosecond = 6789012\<rparr>"

text \<open>What a traversal leaves behind, read off its result.\<close>

definition accumulated :: "session res \<Rightarrow> (string \<times> string list) list res" where
  "accumulated r = res_bind r (\<lambda>s. Ok (map (\<lambda>c. (TableName c, ValuesRows c)) (fullContents s)))"

definition sent :: "session res \<Rightarrow> string list res" where
  "sent r = res_bind r (\<lambda>s. Ok (queries s))"

section \<open>Facts about the schema operations\<close>

lemma contains_iff: "contains s e \<longleftrightarrow> e \<in> set s"
  by (induction s) auto

lemma allDepsAvailable_subset: "set deps \<subseteq> set pointsTo \<Longrightarrow> allDepsAvailable pointsTo deps"
  by (induction deps) (auto simp: contains_iff)

lemma allDepsAvailable_self: "allDepsAvailable pointsTo pointsTo"
  by (rule allDepsAvailable_subset) simp

lemma DetermineInsertTableOrder_loop_eq:
  "DetermineInsertTableOrder_loop res ts = res @ map TName ts"
  by (induction ts arbitrary: res) (simp_all add: allDepsAvailable_self Let_def)

lemma AddTable_dup_iff: "AddTable_dup ts table \<longleftrightarrow> TName table \<in> TName ` set ts"
  by (induction ts) auto

lemma AddTable_fresh:
  "TName table \<notin> TName ` set (Tables rs) \<Longrightarrow>
   AddTable rs table = (rs\<lparr>Tables := Tables rs @ [table]\<rparr>, None)"
  by (simp add: AddTable_def AddTable_dup_iff)

section \<open>Facts about the traversal\<close>

declare digits.simps [simp del]

lemma res_bind_simps [simp]:
  "res_bind (Ok x) f = f x"
  "res_bind (Panic p) f = Panic p"
  "res_bind OutOfFuel f = OutOfFuel"
  by (simp_all add: res_bind_def)

lemma res_bind_not_OutOfFuel: "res_bind m f \<noteq> OutOfFuel \<Longrightarrow> m \<noteq> OutOfFuel"
  by (cases m) simp_all

lemma forward_step_more_fuel:
  assumes ext: "\<And>a b c s. r1 a b c s \<noteq> OutOfFuel \<Longrightarrow> r2 a b c s = r1 a b c s"
    and ret: "forward_step r1 E fromTable rd t s \<noteq> OutOfFuel"
  shows "forward_step r2 E fromTable rd t s = forward_step r1 E fromTable rd t s"
proof (cases "HasPointerToTable t fromTable")
  case None
  then show ?thesis by (simp add: forward_step_def)
next
  case (Some col)
  show ?thesis
  proof (cases "AsStringFromValue E (Type col) (rd (PointsToColumn col))")
    case (Ok ident)
    with Some ret have "r1 (TName t) (Name col) ident s \<noteq> OutOfFuel"
      by (simp add: forward_step_def)
    from ext [OF this] Some Ok show ?thesis by (simp add: forward_step_def)
  qed (simp_all add: forward_step_def Some)
qed

lemma forward_loop_more_fuel:
  assumes ext: "\<And>a b c s. r1 a b c s \<noteq> OutOfFuel \<Longrightarrow> r2 a b c s = r1 a b c s"
  shows "forward_loop r1 E fromTable rd ts s \<noteq> OutOfFuel \<Longrightarrow>
         forward_loop r2 E fromTable rd ts s = forward_loop r1 E fromTable rd ts s"
proof (induction ts arbitrary: s)
  case Nil
  show ?case by simp
next
  case (Cons t ts)
  from Cons.prems have step: "forward_step r1 E fromTable rd t s \<noteq> OutOfFuel"
    by (auto dest: res_bind_not_OutOfFuel)
  have eq: "forward_step r2 E fromTable rd t s = forward_step r1 E fromTable rd t s"
    by (rule forward_step_more_fuel [OF ext step])
  show ?case
  proof (cases "forward_step r1 E fromTable rd t s")
    case (Ok s')
    with Cons.prems have "forward_loop r1 E fromTable rd ts s' \<noteq> OutOfFuel" by simp
    from Cons.IH [OF this] Ok eq show ?thesis by simp
  qed (simp_all add: eq)
qed

lemma backward_step_more_fuel:
  assumes ext: "\<And>a b c s. r1 a b c s \<noteq> OutOfFuel \<Longrightarrow> r2 a b c s = r1 a b c s"
    and ret: "backward_step r1 E rd col s \<noteq> OutOfFuel"
  shows "backward_step r2 E rd col s = backward_step r1 E rd col s"
proof (cases "AsStringFromValue E (Type col) (rd (Name col))")
  case (Ok ident)
  show ?thesis
  proof (cases "PointsToTable col \<noteq> [] \<and> PointsToColumn col \<noteq> [] \<and> rd (Name col) \<noteq> GoNil
                \<and> \<not> contains (visited s) ident")
    case True
    with Ok ret have "r1 (PointsToTable col) (PointsToColumn col) ident (s\<lparr>visited := visited s @ [ident]\<rparr>) \<noteq> OutOfFuel"
      by (simp add: backward_step_def)
    from ext [OF this] True Ok show ?thesis by (simp add: backward_step_def)
  next
    case False
    with Ok show ?thesis by (auto simp: backward_step_def Let_def)
  qed
qed (simp_all add: backward_step_def Let_def)

lemma backward_loop_more_fuel:
  assumes ext: "\<And>a b c s. r1 a b c s \<noteq> OutOfFuel \<Longrightarrow> r2 a b c s = r1 a b c s"
  shows "backward_loop r1 E rd cols s \<noteq> OutOfFuel \<Longrightarrow>
         backward_loop r2 E rd cols s = backward_loop r1 E rd cols s"
proof (induction cols arbitrary: s)
  case Nil
  show ?case by simp
next
  case (Cons col cols)
  from Cons.prems have step: "backward_step r1 E rd col s \<noteq> OutOfFuel"
    by (auto dest: res_bind_not_OutOfFuel)
  have eq: "backward_step r2 E rd col s = backward_step r1 E rd col s"
    by (rule backward_step_more_fuel [OF ext step])
  show ?case
  proof (cases "backward_step r1 E rd col s")
    case (Ok s')
    with Cons.prems have "backward_loop r1 E rd cols s' \<noteq> OutOfFuel" by simp
    from Cons.IH [OF this] Ok eq show ?thesis by simp
  qed (simp_all add: eq)
qed

lemma traverseTables_Suc_fuel:
  "traverseTables n E rs fromTable c i s \<noteq> OutOfFuel \<Longrightarrow>
   traverseTables (Suc n) E rs fromTable c i s = traverseTables n E rs fromTable c i s"
proof (induction n arbitrary: fromTable c i s)
  case 0
  then show ?case by simp
next
  case (Suc n)
  have ext: "\<And>a b c s. traverseTables n E rs a b c s \<noteq> OutOfFuel \<Longrightarrow>
               traverseTables (Suc n) E rs a b c s = traverseTables n E rs a b c s"
    by (rule Suc.IH)
  show ?case
  proof (cases "fetch_and_record E rs fromTable c i s")
    case (Ok triple)
    obtain tabl rd s1 where triple: "triple = (tabl, rd, s1)" by (cases triple) auto
    let ?f1 = "forward_loop (traverseTables n E rs) E fromTable rd (Tables rs) s1"
    let ?f2 = "forward_loop (traverseTables (Suc n) E rs) E fromTable rd (Tables rs) s1"
    from Suc.prems Ok triple have f1: "?f1 \<noteq> OutOfFuel"
      by (auto simp del: forward_loop.simps dest: res_bind_not_OutOfFuel)
    have feq: "?f2 = ?f1" by (rule forward_loop_more_fuel [OF ext f1])
    show ?thesis
    proof (cases ?f1)
      case (Ok s2)
      with Suc.prems \<open>fetch_and_record E rs fromTable c i s = Ok triple\<close> triple
      have b1: "backward_loop (traverseTables n E rs) E rd (Columns tabl) s2 \<noteq> OutOfFuel"
        by simp
      have "backward_loop (traverseTables (Suc n) E rs) E rd (Columns tabl) s2 =
            backward_loop (traverseTables n E rs) E rd (Columns tabl) s2"
        by (rule backward_loop_more_fuel [OF ext b1])
      with Ok feq \<open>fetch_and_record E rs fromTable c i s = Ok triple\<close> triple
      show ?thesis by simp
    next
      case (Panic p)
      with feq \<open>fetch_and_record E rs fromTable c i s = Ok triple\<close> triple show ?thesis by simp
    next
      case OutOfFuel
      with f1 show ?thesis by simp
    qed
  qed simp_all
qed

lemma traverseTables_more_fuel:
  "traverseTables n E rs fromTable c i s \<noteq> OutOfFuel \<Longrightarrow>
   traverseTables (n + k) E rs fromTable c i s = traverseTables n E rs fromTable c i s"
proof (induction k)
  case 0
  show ?case by simp
next
  case (Suc k)
  then have "traverseTables (n + k) E rs fromTable c i s \<noteq> OutOfFuel" by simp
  from traverseTables_Suc_fuel [OF this] Suc show ?case by simp
qed

lemma traverseTables_fuel_independent:
  assumes "traverseTables n E rs fromTable c i s \<noteq> OutOfFuel"
    and "traverseTables m E rs fromTable c i s \<noteq> OutOfFuel"
  shows "traverseTables n E rs fromTable c i s = traverseTables m E rs fromTable c i s"
proof (cases "n \<le> m")
  case True
  then obtain k where "m = n + k" using le_Suc_ex by blast
  with traverseTables_more_fuel [OF assms(1), of k] show ?thesis by simp
next
  case False
  then obtain k where "n = m + k" using le_Suc_ex by (metis nat_le_linear)
  with traverseTables_more_fuel [OF assms(2), of k] show ?thesis by simp
qed

lemma rowStringVals_nil:
  "rowStringVals E cols (replicate (length cols) GoNil) = Ok (replicate (length cols) ''NULL'')"
  by (induction cols) (simp_all add: rowLiteral_def)

lemma fetch_and_record_Ok:
  assumes "Query E (query_text fromTable c i) = r" and "r \<noteq> QueryError"
    and "Tables_at rs (GetTableIndexByName rs fromTable) = Ok tabl"
    and "scan_row (Columns tabl) r = Ok (ifVals, rd)"
    and "rowStringVals E (Columns tabl) ifVals = Ok lits"
  shows "\<exists>s1. fetch_and_record E rs fromTable c i s = Ok (tabl, rd, s1)"
  using assms by (simp add: fetch_and_record_def Let_def split: prod.splits)

lemma forward_loop_blocked:
  "t \<in> set ts \<Longrightarrow> (\<And>x y. forward_step r E fromTable rd t x \<noteq> Ok y) \<Longrightarrow>
   forward_loop r E fromTable rd ts s \<noteq> Ok s'"
proof (induction ts arbitrary: s)
  case Nil
  then show ?case by simp
next
  case (Cons a ts)
  show ?case
  proof (cases "forward_step r E fromTable rd a s")
    case (Ok s1)
    with Cons.prems have "a \<noteq> t" by auto
    with Cons.prems have "t \<in> set ts" by simp
    from Cons.IH [OF this Cons.prems(2)] Ok show ?thesis by simp
  qed simp_all
qed

lemma self_reference_never_returns:
  assumes t: "t \<in> set (Tables rs)" and col: "HasPointerToTable t (TName t) = Some col"
  shows "traverseTables n E rs (TName t) c i s \<noteq> Ok s'"
proof (induction n arbitrary: c i s s')
  case 0
  show ?case by simp
next
  case (Suc n)
  show ?case
  proof (cases "fetch_and_record E rs (TName t) c i s")
    case (Ok triple)
    obtain tabl rd s1 where triple: "triple = (tabl, rd, s1)" by (cases triple) auto
    have step: "forward_step (traverseTables n E rs) E (TName t) rd t x \<noteq> Ok y" for x y
      using Suc.IH by (cases "AsStringFromValue E (Type col) (rd (PointsToColumn col))")
        (simp_all add: forward_step_def col)
    have blocked: "forward_loop (traverseTables n E rs) E (TName t) rd (Tables rs) s1 \<noteq> Ok y" for y
      by (rule forward_loop_blocked [OF t step])
    show ?thesis
    proof (cases "forward_loop (traverseTables n E rs) E (TName t) rd (Tables rs) s1")
      case (Ok y)
      with blocked [of y] show ?thesis by simp
    qed (simp_all add: \<open>fetch_and_record E rs (TName t) c i s = Ok triple\<close> triple)
  qed simp_all
qed

lemma node_queries:
  "Query node_env (query_text ''node'' ''parent'' i) = NoRow"
  "Query node_env (query_text ''node'' ''id'' ''1'') = Row node_row"
  by (simp_all add: node_env_def node_row_def fixture_env_def fixture_db_def query_text_def quoted_def)

lemma node_lookup: "Tables_at node_schema (GetTableIndexByName node_schema ''node'') = Ok node_table"
  by (simp add: Tables_at_def GetTableIndexByName_def node_schema_def node_table_def)

lemma node_pointer:
  "HasPointerToTable node_table ''node'' = Some (text_reference ''parent'' 2 ''node'' ''id'')"
  by (simp add: HasPointerToTable_def node_table_def text_column_def text_reference_def)

lemma node_names [simp]:
  "TName node_table = ''node''"
  "Tables node_schema = [node_table]"
  "Name (text_reference n pos tt tc) = n"
  "Type (text_reference n pos tt tc) = ''text''"
  "PointsToColumn (text_reference n pos tt tc) = tc"
  by (simp_all add: node_table_def node_schema_def text_reference_def)

lemma node_children_diverge:
  "traverseTables n node_env node_schema ''node'' ''parent'' i s = OutOfFuel"
proof (induction n arbitrary: i s)
  case 0
  show ?case by simp
next
  case (Suc n)
  have "scan_row (Columns node_table) NoRow = Ok (replicate (length (Columns node_table)) GoNil, \<lambda>_. GoNil)"
    by (simp add: scan_row_def)
  from fetch_and_record_Ok [OF node_queries(1) _ node_lookup this rowStringVals_nil]
  obtain s1 where fetch: "fetch_and_record node_env node_schema ''node'' ''parent'' i s =
      Ok (node_table, \<lambda>_. GoNil, s1)" by auto
  have "forward_step (traverseTables n node_env node_schema) node_env ''node'' (\<lambda>_. GoNil) node_table s1 = OutOfFuel"
    by (simp add: forward_step_def node_pointer AsStringFromValue_def Suc.IH)
  then show ?case by (simp add: fetch)
qed

subsection \<open>What a call adds to the contents\<close>





















subsection \<open>Literals\<close>

lemma rowStringVals_nth:
  "rowStringVals E cols vals = Ok lits \<Longrightarrow> i < length cols \<Longrightarrow> i < length vals \<Longrightarrow>
   rowLiteral E (Type (cols ! i)) (vals ! i) = Ok (lits ! i)"
proof (induction E cols vals arbitrary: lits i rule: rowStringVals.induct)
  case (1 E c cs e es)
  from "1.prems"(1) obtain a as where a: "rowLiteral E (Type c) e = Ok a"
    and as: "rowStringVals E cs es = Ok as" and lits: "lits = a # as"
    by (cases "rowLiteral E (Type c) e"; cases "rowStringVals E cs es") auto
  show ?case
  proof (cases i)
    case 0
    with a lits show ?thesis by simp
  next
    case (Suc j)
    with "1.prems" have "j < length cs" "j < length es" by simp_all
    from "1.IH" [OF as this] Suc lits show ?thesis by simp
  qed
qed simp_all

lemma rowLiteral_nil: "rowLiteral E typ GoNil = Ok ''NULL''"
  by (simp add: rowLiteral_def)

lemma digits_length: "0 < w \<Longrightarrow> n < 10 ^ w \<Longrightarrow> length (digits n) \<le> w"
proof (induction n arbitrary: w rule: digits.induct)
  case (1 n)
  show ?case
  proof (cases "n < 10")
    case True
    with "1.prems" show ?thesis by (simp add: digits.simps [of n])
  next
    case False
    with "1.prems" obtain v where w: "w = Suc v" and v: "0 < v"
      by (cases w; cases "w - 1") auto
    from "1.prems" w have "n div 10 < 10 ^ v" by (simp add: less_mult_imp_div_less mult.commute)
    from "1.IH" [OF False v this] False w show ?thesis by (simp add: digits.simps [of n])
  qed
qed

lemma zero_pad_length: "0 < w \<Longrightarrow> n < 10 ^ w \<Longrightarrow> length (zero_pad w n) = w"
  using digits_length [of w n] by (simp add: zero_pad_def)

lemma appendInt_zero_pad: "0 \<le> x \<Longrightarrow> appendInt x w = zero_pad w (nat x)"
  by (simp add: appendInt_def zero_pad_def)

lemma digits_zero: "digits 0 = ''0''"
  by (simp add: digits.simps [of 0] digit_def)

lemma zero_pad_Suc:
  assumes "0 < k"
  shows "zero_pad (Suc k) n = zero_pad k (n div 10) @ [digit (n mod 10)]"
proof (cases "n < 10")
  case True
  from assms have "replicate (k - Suc 0) (CHR ''0'') @ ''0'' = replicate k (CHR ''0'')"
    by (cases k) (simp_all add: replicate_append_same)
  with True show ?thesis
    by (simp add: zero_pad_def digits.simps [of n] digits_zero)
next
  case False
  then show ?thesis by (simp add: zero_pad_def digits.simps [of n] Suc_diff_le)
qed

lemma take_zero_pad_Suc:
  assumes "0 < k" "n < 10 ^ Suc k" "m \<le> k"
  shows "take m (zero_pad (Suc k) n) = take m (zero_pad k (n div 10))"
proof -
  from assms have "n div 10 < 10 ^ k" by (simp add: less_mult_imp_div_less mult.commute)
  with assms have "length (zero_pad k (n div 10)) = k" by (simp add: zero_pad_length)
  with assms show ?thesis by (simp add: zero_pad_Suc)
qed

lemma take_millis:
  assumes "n < 1000000000"
  shows "take 3 (zero_pad 9 n) = zero_pad 3 (n div 1000000)"
proof -
  have "take 3 (zero_pad 9 n) = take 3 (zero_pad 8 (n div 10))"
    using take_zero_pad_Suc [of 8 n 3] assms by simp
  also have "\<dots> = take 3 (zero_pad 7 (n div 100))"
    using take_zero_pad_Suc [of 7 "n div 10" 3] assms by (simp add: div_mult2_eq [symmetric])
  also have "\<dots> = take 3 (zero_pad 6 (n div 1000))"
    using take_zero_pad_Suc [of 6 "n div 100" 3] assms by (simp add: div_mult2_eq [symmetric])
  also have "\<dots> = take 3 (zero_pad 5 (n div 10000))"
    using take_zero_pad_Suc [of 5 "n div 1000" 3] assms by (simp add: div_mult2_eq [symmetric])
  also have "\<dots> = take 3 (zero_pad 4 (n div 100000))"
    using take_zero_pad_Suc [of 4 "n div 10000" 3] assms by (simp add: div_mult2_eq [symmetric])
  also have "\<dots> = take 3 (zero_pad 3 (n div 1000000))"
    using take_zero_pad_Suc [of 3 "n div 100000" 3] assms by (simp add: div_mult2_eq [symmetric])
  also have "\<dots> = zero_pad 3 (n div 1000000)"
    using zero_pad_length [of 3 "n div 1000000"] assms by simp
  finally show ?thesis .
qed

lemma Format_layout_ms_Z:
  assumes "civil t"
  shows "Format t layout_ms_Z = spec_timestamp t @ ''Z''"
  using assms
  by (simp add: Format_def layout_ms_Z_def spec_timestamp_def civil_def appendInt_zero_pad
      take_millis)

lemma spec_timestamp_length:
  assumes "civil t"
  shows "length (spec_timestamp t) = 23"
proof -
  from assms have "nat (Year t) < 10 ^ 4" "Nanosecond t div 1000000 < 10 ^ 3"
    by (auto simp: civil_def less_mult_imp_div_less)
  with assms have "length (zero_pad 4 (nat (Year t))) = 4" "length (zero_pad 2 (Month t)) = 2"
    "length (zero_pad 2 (Day t)) = 2" "length (zero_pad 2 (Hour t)) = 2"
    "length (zero_pad 2 (Minute t)) = 2" "length (zero_pad 2 (Second t)) = 2"
    "length (zero_pad 3 (Nanosecond t div 1000000)) = 3"
    by (simp_all add: civil_def zero_pad_length)
  then show ?thesis by (simp add: spec_timestamp_def)
qed

lemma replicate_small:
  "replicate 1 c = [c]" "replicate 2 c = [c, c]" "replicate 3 c = [c, c, c]"
  "replicate 6 c = [c, c, c, c, c, c]"
  by (simp_all add: eval_nat_numeral)

lemma noon_civil: "civil noon"
  by (simp add: civil_def noon_def)

lemma noon_spec: "spec_timestamp noon = ''2024-01-02T12:04:05.006''"
  by (simp add: spec_timestamp_def noon_def zero_pad_def digits.simps digit_def replicate_small)



text \<open>Every byte slice of length 16 holds the bytes of some \<open>[16]uint8\<close>.\<close>

lemma sixteen_bytes_array:
  assumes "length d = 16"
  shows "\<exists>a. array16_list a = d"
proof -
  from assms obtain b0 b1 b2 b3 b4 b5 b6 b7 b8 b9 b10 b11 b12 b13 b14 b15 where
    "d = [b0, b1, b2, b3, b4, b5, b6, b7, b8, b9, b10, b11, b12, b13, b14, b15]"
    by (auto simp: eval_nat_numeral length_Suc_conv)
  then have "array16_list (Array16 b0 b1 b2 b3 b4 b5 b6 b7 b8 b9 b10 b11 b12 b13 b14 b15) = d"
    by simp
  then show ?thesis ..
qed

lemma seed_uuid_String:
  "uuid_String (array16_list seed_uuid) = ''ce44b234-14d9-4a5f-80c6-1809aab09871''"
  by (simp add: seed_uuid_def uuid_String_def hex_Encode_def hex_byte_def hextable_def)

section \<open>The claims\<close>

text \<open>
  C1 (the code fails it). \<open>vehicle\<close> has a foreign key to \<open>manufacturer\<close>, both are
  extracted, and \<open>vehicle\<close> comes first in the order and in the statements: the order
  is the registration order.
\<close>

theorem C1_vehicle_before_manufacturer:
  "ListTablesPointedTo (hd (Tables vehicle_schema)) = [''manufacturer'', ''model''] \<and>
   DetermineInsertTableOrder vehicle_schema = [''vehicle'', ''manufacturer'', ''model''] \<and>
   extraction 5 vehicle_env vehicle_schema ''vehicle'' ''id'' ''V1'' =
     Ok [stmt_of \<lparr>TableName = ''vehicle'', InsertColumnNames = [''id'', ''make'', ''model''],
                  ValuesRows = [quoted ''V1'' @ '', '' @ quoted ''M1'' @ '', '' @ quoted ''D1'',
                                quoted ''V1'' @ '', '' @ quoted ''M1'' @ '', '' @ quoted ''D1'',
                                quoted ''V1'' @ '', '' @ quoted ''M1'' @ '', '' @ quoted ''D1'']\<rparr>,
         stmt_of \<lparr>TableName = ''manufacturer'', InsertColumnNames = [''id''],
                  ValuesRows = [quoted ''M1'']\<rparr>,
         stmt_of \<lparr>TableName = ''model'', InsertColumnNames = [''id''],
                  ValuesRows = [quoted ''D1'']\<rparr>]"
  by code_simp

text \<open>
  C2 (the code fails it). On the parent-pointer schema with the root alone in the
  database, the traversal from the root does not return at any depth of recursion:
  the forward loop enters \<open>node\<close> again from \<open>node\<close> without consulting \<open>visited\<close>.
\<close>

theorem C2_self_reference_diverges:
  "traverseTables n node_env node_schema ''node'' ''id'' ''1'' s = OutOfFuel"
proof (cases n)
  case 0
  then show ?thesis by simp
next
  case (Suc k)
  have scan: "scan_row (Columns node_table) (Row node_row) = Ok (map snd node_row, resultData_of node_row)"
    by (simp add: scan_row_def node_table_def node_row_def)
  have lits: "rowStringVals node_env (Columns node_table) (map snd node_row) =
      Ok [quoted ''1'', ''NULL'']"
    by (simp add: node_table_def node_row_def text_column_def text_reference_def rowLiteral_def
        node_env_def fixture_env_def fixture_Sprint_def)
  from fetch_and_record_Ok [OF node_queries(2) _ node_lookup scan lits]
  obtain s1 where fetch: "fetch_and_record node_env node_schema ''node'' ''id'' ''1'' s =
      Ok (node_table, resultData_of node_row, s1)" by auto
  have "forward_step (traverseTables k node_env node_schema) node_env ''node''
          (resultData_of node_row) node_table s1 = OutOfFuel"
    by (simp add: forward_step_def node_pointer AsStringFromValue_def
        resultData_of_def node_row_def node_children_diverge)
  then show ?thesis unfolding Suc by (simp add: fetch)
qed

text \<open>
  C3 (the code fails it). In the scenario of the specification the one vehicle row is
  accumulated three times: the forward loop enters \<open>vehicle\<close> from \<open>manufacturer\<close>
  and from \<open>model\<close> without consulting \<open>visited\<close>, and the seed is never recorded.
\<close>

theorem C3_vehicle_row_three_times:
  "accumulated (traverseTables 5 vehicle_env vehicle_schema ''vehicle'' ''id'' ''V1'' initial_session) =
     Ok [(''vehicle'',
          [quoted ''V1'' @ '', '' @ quoted ''M1'' @ '', '' @ quoted ''D1'',
           quoted ''V1'' @ '', '' @ quoted ''M1'' @ '', '' @ quoted ''D1'',
           quoted ''V1'' @ '', '' @ quoted ''M1'' @ '', '' @ quoted ''D1'']),
         (''manufacturer'', [quoted ''M1'']),
         (''model'', [quoted ''D1''])]"
  by code_simp

text \<open>
  C4. Registering a table whose name is already registered fails with the
  duplicate-table panic, and the receiver is left as it was.
\<close>

theorem C4_AddTable_duplicate:
  "TName table \<in> TName ` set (Tables rs) \<Longrightarrow> AddTable rs table = (rs, Some DuplicateTable)"
  by (simp add: AddTable_def AddTable_dup_iff)

text \<open>Witness of C4: \<open>person\<close> registered twice.\<close>

theorem C4_AddTable_duplicate_witness:
  "TName person_table \<in> TName ` set (Tables (fst (AddTable \<lparr>Tables = []\<rparr> person_table))) \<and>
   AddTable (fst (AddTable \<lparr>Tables = []\<rparr> person_table)) person_table =
     (fst (AddTable \<lparr>Tables = []\<rparr> person_table), Some DuplicateTable)"
proof -
  have h: "TName person_table \<in> TName ` set (Tables (fst (AddTable \<lparr>Tables = []\<rparr> person_table)))"
    by (simp add: AddTable_def)
  from h C4_AddTable_duplicate [OF h] show ?thesis by simp
qed

text \<open>
  C5 (the code fails it). The seed \<open>manufacturer.id = M9\<close> matches no row of an empty
  database. The call is not an error, but a row of \<open>NULL\<close>s is accumulated for
  \<open>manufacturer\<close>, the forward loop goes on into \<open>vehicle\<close> with the marker of
  \<open>nil\<close> as identifier, and two statements are printed.
\<close>

theorem C5_absent_seed_emits_null_rows:
  "extraction 2 (fixture_env []) vehicle_schema ''manufacturer'' ''id'' ''M9'' =
     Ok [stmt_of \<lparr>TableName = ''vehicle'', InsertColumnNames = [''id'', ''make'', ''model''],
                  ValuesRows = [''NULL, NULL, NULL'']\<rparr>,
         stmt_of \<lparr>TableName = ''manufacturer'', InsertColumnNames = [''id''],
                  ValuesRows = [''NULL'']\<rparr>] \<and>
   sent (traverseTables 2 (fixture_env []) vehicle_schema ''manufacturer'' ''id'' ''M9'' initial_session) =
     Ok [query_text ''manufacturer'' ''id'' ''M9'', query_text ''vehicle'' ''make'' nil_marker]"
  by code_simp

text \<open>
  C6. A scanned value that is \<open>nil\<close> becomes the literal \<open>NULL\<close>, without quotes,
  whatever the declared type of the column is and whatever the environment does, so
  before any branch on the type; this holds at every position of a row; and the
  backward loop leaves a column whose value is \<open>nil\<close> alone: it does not call the
  traversal and does not touch the session.
\<close>

theorem C6_null_handling:
  "rowLiteral E typ GoNil = Ok ''NULL'' \<and>
   (rowStringVals E cols vals = Ok lits \<longrightarrow> i < length cols \<longrightarrow> i < length vals \<longrightarrow>
      vals ! i = GoNil \<longrightarrow> lits ! i = ''NULL'') \<and>
   (resultData (Name col) = GoNil \<longrightarrow> backward_step recurse E resultData col s = Ok s)"
proof (intro conjI impI)
  show "rowLiteral E typ GoNil = Ok ''NULL''" by (rule rowLiteral_nil)
next
  assume "rowStringVals E cols vals = Ok lits" "i < length cols" "i < length vals" "vals ! i = GoNil"
  from rowStringVals_nth [OF this(1,2,3)] this(4) show "lits ! i = ''NULL''"
    by (simp add: rowLiteral_nil)
next
  assume "resultData (Name col) = GoNil"
  then show "backward_step recurse E resultData col s = Ok s"
    by (simp add: backward_step_def)
qed

text \<open>
  Witness of C6: the root of the hierarchy, whose \<open>parent\<close> is null, with a
  traversal that would panic if it were called.
\<close>

theorem C6_null_handling_witness:
  "rowLiteral node_env ''uuid'' GoNil = Ok ''NULL'' \<and>
   rowStringVals node_env (Columns node_table) (map snd node_row) = Ok [quoted ''1'', ''NULL''] \<and>
   map snd node_row ! 1 = GoNil \<and> [quoted ''1'', ''NULL''] ! 1 = ''NULL'' \<and>
   resultData_of node_row (Name (Columns node_table ! 1)) = GoNil \<and>
   PointsToTable (Columns node_table ! 1) = ''node'' \<and>
   backward_step (\<lambda>_ _ _ _. Panic QueryFailed) node_env (resultData_of node_row)
     (Columns node_table ! 1) initial_session = Ok initial_session"
proof -
  have a: "rowStringVals node_env (Columns node_table) (map snd node_row) = Ok [quoted ''1'', ''NULL'']"
    by code_simp
  have b: "map snd node_row ! 1 = GoNil" by code_simp
  have c: "resultData_of node_row (Name (Columns node_table ! 1)) = GoNil" by code_simp
  have d: "PointsToTable (Columns node_table ! 1) = ''node''" by code_simp
  have l: "(1::nat) < length (Columns node_table)" "(1::nat) < length (map snd node_row)"
    by code_simp+
  from C6_null_handling [of node_env "''uuid''" "Columns node_table" "map snd node_row"
      "[quoted ''1'', ''NULL'']" 1 "resultData_of node_row" "Columns node_table ! 1"
      "\<lambda>_ _ _ _. Panic QueryFailed" initial_session] a b c d l
  show ?thesis by simp
qed




text \<open>
  C8, amended. For a time with civil fields (a year of four digits) in a column
  declared \<open>timestamp\<close>, \<open>timestamp with time zone\<close> or
  \<open>timestamp without time zone\<close>, the literal is the timestamp of the
  specification, 23 characters, followed by the letter \<open>Z\<close>, in single quotes.
\<close>

theorem C8_timestamp_literal:
  assumes "civil t"
    and "typ = ''timestamp'' \<or> typ = ''timestamp with time zone'' \<or> typ = ''timestamp without time zone''"
  shows "rowLiteral E typ (GoTime t) = Ok (quoted (spec_timestamp t @ ''Z'')) \<and>
         length (spec_timestamp t) = 23"
  using assms(2) Format_layout_ms_Z [OF assms(1)] spec_timestamp_length [OF assms(1)]
  by (auto simp: rowLiteral_def)

text \<open>Witness of C8: a time of day in a \<open>timestamp with time zone\<close> column.\<close>

theorem C8_timestamp_literal_witness:
  "civil noon \<and>
   rowLiteral node_env ''timestamp with time zone'' (GoTime noon) =
     Ok (quoted (spec_timestamp noon @ ''Z'')) \<and>
   spec_timestamp noon = ''2024-01-02T12:04:05.006'' \<and>
   length (spec_timestamp noon) = 23"
  using noon_civil noon_spec
    C8_timestamp_literal [OF noon_civil, of "''timestamp with time zone''" node_env]
  by simp

text \<open>
  C8 as stated fails: the literal ends in \<open>Z\<close> before the closing quote, so it is not
  the quoted timestamp of the specification.
\<close>

theorem C8_trailing_Z_counterexample:
  "rowLiteral node_env ''timestamp'' (GoTime noon) = Ok (quoted ''2024-01-02T12:04:05.006Z'') \<and>
   rowLiteral node_env ''timestamp'' (GoTime noon) \<noteq> Ok (quoted (spec_timestamp noon))"
proof -
  have "Format noon layout_ms_Z = ''2024-01-02T12:04:05.006Z''"
    by (simp add: Format_def layout_ms_Z_def appendInt_def noon_def digits.simps digit_def
        replicate_small)
  then show ?thesis by (simp add: rowLiteral_def noon_spec quoted_def)
qed


text \<open>
  C10. \<open>DetermineInsertTableOrder\<close> returns the name of every registered table, one
  entry per table, in registration order, whatever the foreign keys are: the
  dependency test of the inner loop compares \<open>pointsTo\<close> with itself and never fails.
\<close>

theorem C10_order_is_registration_order:
  "DetermineInsertTableOrder rs = map TName (Tables rs)"
  by (simp add: DetermineInsertTableOrder_def DetermineInsertTableOrder_loop_eq)

end
